theory Spec2Isabelle
  imports Main "HOL-Library.Word"
begin

unbundle bit_operations_syntax

section \<open>Wire primitives (runtime/defs.go)\<close>

text \<open>
  Go's \<open>uint8\<close>, \<open>uint16\<close>, \<open>uint32\<close> and \<open>uint64\<close> are words of that width;
  \<open>int64\<close> is a 64-bit word read in two's complement (\<open>sint\<close>).  A \<open>[]byte\<close> is a
  list of bytes; the slice \<open>b[k:]\<close> is \<open>drop k b\<close> and is only taken after the
  length check the source performs.
\<close>

type_synonym byte = "8 word"

definition recursionLimit :: nat where
  "recursionLimit = 100000"

definition majorTypeUint :: byte where "majorTypeUint = 0"
definition majorTypeNegInt :: byte where "majorTypeNegInt = 1"
definition majorTypeBytes :: byte where "majorTypeBytes = 2"
definition majorTypeText :: byte where "majorTypeText = 3"
definition majorTypeArray :: byte where "majorTypeArray = 4"
definition majorTypeMap :: byte where "majorTypeMap = 5"
definition majorTypeTag :: byte where "majorTypeTag = 6"
definition majorTypeSimple :: byte where "majorTypeSimple = 7"

definition addInfoDirect :: byte where "addInfoDirect = 23"
definition addInfoUint8 :: byte where "addInfoUint8 = 24"
definition addInfoUint16 :: byte where "addInfoUint16 = 25"
definition addInfoUint32 :: byte where "addInfoUint32 = 26"
definition addInfoUint64 :: byte where "addInfoUint64 = 27"
definition addInfoIndefinite :: byte where "addInfoIndefinite = 31"

definition simpleFalse :: byte where "simpleFalse = 20"
definition simpleTrue :: byte where "simpleTrue = 21"
definition simpleNull :: byte where "simpleNull = 22"
definition simpleUndefined :: byte where "simpleUndefined = 23"
definition simpleFloat16 :: byte where "simpleFloat16 = 25"
definition simpleFloat32 :: byte where "simpleFloat32 = 26"
definition simpleFloat64 :: byte where "simpleFloat64 = 27"
definition simpleBreak :: byte where "simpleBreak = 31"

lemmas wire_consts =
  majorTypeUint_def majorTypeNegInt_def majorTypeBytes_def majorTypeText_def
  majorTypeArray_def majorTypeMap_def majorTypeTag_def majorTypeSimple_def
  addInfoDirect_def addInfoUint8_def addInfoUint16_def addInfoUint32_def
  addInfoUint64_def addInfoIndefinite_def
  simpleFalse_def simpleTrue_def simpleNull_def simpleUndefined_def
  simpleFloat16_def simpleFloat32_def simpleFloat64_def simpleBreak_def

text \<open>\<open>makeByte\<close>: \<open>byte((majorType << 5) | addInfo)\<close>, on \<open>uint8\<close>.\<close>

definition makeByte :: "byte \<Rightarrow> byte \<Rightarrow> byte" where
  "makeByte majorType addInfo = push_bit 5 majorType OR addInfo"

text \<open>\<open>getMajorType\<close>: \<open>(b >> 5) & 0x07\<close>; \<open>getAddInfo\<close>: \<open>b & 0x1f\<close>.\<close>

definition getMajorType :: "byte \<Rightarrow> byte" where
  "getMajorType b = drop_bit 5 b AND 0x07"

definition getAddInfo :: "byte \<Rightarrow> byte" where
  "getAddInfo b = b AND 0x1f"

subsection \<open>Errors (runtime/errors.go, runtime/defs.go)\<close>

text \<open>
  Every error value the modelled functions can return.  \<open>ErrorString\<close> stands for an
  \<open>errors.New\<close> value with that message; \<open>LibraryError\<close> for an error handed back by a
  standard-library call (\<open>time.Parse\<close>, \<open>base64\<close>, \<open>hex\<close>, \<open>regexp\<close>,
  \<open>json.Number\<close>).
\<close>

datatype error =
    ErrShortBytes
  | ErrMaxDepthExceeded
  | ErrNotNil
  | ErrInvalidUTF8
  | ErrDuplicateMapKey
  | ErrIndefiniteForbidden
  | ErrNonCanonicalInteger
  | ErrNonCanonicalLength
  | ErrNonCanonicalFloat
  | ErrContainerTooLarge
  | ErrUnsupportedType
  | InvalidPrefixError (Want: byte) (Got: byte)
  | InvalidAdditionalInfoError (Major: byte) (Info: byte)
  | IntOverflow (IValue: "64 word") (IFailedBitsize: nat)
  | UintOverflow (UValue: "64 word") (UFailedBitsize: nat)
  | ArrayError (Wanted: "32 word") (AGot: "32 word")
  | ErrorString string
  | LibraryError

definition badPrefix :: "byte \<Rightarrow> byte \<Rightarrow> error" where
  "badPrefix wantMajor gotMajor = InvalidPrefixError wantMajor gotMajor"

subsection \<open>Big-endian integers (Go's \<open>encoding/binary.BigEndian\<close>)\<close>

definition Uint16 :: "byte list \<Rightarrow> 16 word" where
  "Uint16 b = ucast (b ! 1) OR push_bit 8 (ucast (b ! 0))"

definition Uint32 :: "byte list \<Rightarrow> 32 word" where
  "Uint32 b = ucast (b ! 3) OR push_bit 8 (ucast (b ! 2)) OR push_bit 16 (ucast (b ! 1))
     OR push_bit 24 (ucast (b ! 0))"

definition Uint64 :: "byte list \<Rightarrow> 64 word" where
  "Uint64 b = ucast (b ! 7) OR push_bit 8 (ucast (b ! 6)) OR push_bit 16 (ucast (b ! 5))
     OR push_bit 24 (ucast (b ! 4)) OR push_bit 32 (ucast (b ! 3))
     OR push_bit 40 (ucast (b ! 2)) OR push_bit 48 (ucast (b ! 1))
     OR push_bit 56 (ucast (b ! 0))"

definition PutUint16 :: "16 word \<Rightarrow> byte list" where
  "PutUint16 v = [ucast (drop_bit 8 v), ucast v]"

definition PutUint32 :: "32 word \<Rightarrow> byte list" where
  "PutUint32 v = [ucast (drop_bit 24 v), ucast (drop_bit 16 v), ucast (drop_bit 8 v), ucast v]"

definition PutUint64 :: "64 word \<Rightarrow> byte list" where
  "PutUint64 v = [ucast (drop_bit 56 v), ucast (drop_bit 48 v), ucast (drop_bit 40 v),
     ucast (drop_bit 32 v), ucast (drop_bit 24 v), ucast (drop_bit 16 v),
     ucast (drop_bit 8 v), ucast v]"

section \<open>Appenders (runtime/read_bytes.go, second part)\<close>

text \<open>
  \<open>ensure(b, sz)\<close> grows the slice by \<open>sz\<close> bytes which the caller then fills, so an
  appender returns \<open>b\<close> followed by the bytes it writes.
\<close>

definition appendUintCore :: "byte list \<Rightarrow> byte \<Rightarrow> 64 word \<Rightarrow> byte list" where
  "appendUintCore b majorType u =
     (if u \<le> ucast addInfoDirect then b @ [makeByte majorType (ucast u)]
      else if u \<le> 0xFF then b @ [makeByte majorType addInfoUint8, ucast u]
      else if u \<le> 0xFFFF then b @ makeByte majorType addInfoUint16 # PutUint16 (ucast u)
      else if u \<le> 0xFFFFFFFF then b @ makeByte majorType addInfoUint32 # PutUint32 (ucast u)
      else b @ makeByte majorType addInfoUint64 # PutUint64 u)"

definition AppendMapHeader :: "byte list \<Rightarrow> 32 word \<Rightarrow> byte list" where
  "AppendMapHeader b sz = appendUintCore b majorTypeMap (ucast sz)"

definition AppendArrayHeader :: "byte list \<Rightarrow> 32 word \<Rightarrow> byte list" where
  "AppendArrayHeader b sz = appendUintCore b majorTypeArray (ucast sz)"

text \<open>
  \<open>AppendInt64\<close>: \<open>i\<close> is an \<open>int64\<close>; the comparisons are signed, \<open>-1 - i\<close> wraps,
  and \<open>uint64(neg)\<close> keeps the bits.
\<close>

definition AppendInt64 :: "byte list \<Rightarrow> 64 word \<Rightarrow> byte list" where
  "AppendInt64 b i =
     (if 0 \<le> sint i \<and> sint i \<le> sint (ucast addInfoDirect :: 64 word)
        then b @ [makeByte majorTypeUint (ucast i)]
      else if sint i < 0 then
        (let neg = - 1 - i in
         if 0 \<le> sint neg \<and> sint neg \<le> sint (ucast addInfoDirect :: 64 word)
           then b @ [makeByte majorTypeNegInt (ucast neg)]
         else appendUintCore b majorTypeNegInt neg)
      else appendUintCore b majorTypeUint i)"

definition AppendUint64 :: "byte list \<Rightarrow> 64 word \<Rightarrow> byte list" where
  "AppendUint64 b u = appendUintCore b majorTypeUint u"

section \<open>Stateless readers (runtime/read_bytes.go, first part)\<close>

definition readUintCore :: "byte list \<Rightarrow> byte \<Rightarrow> error + (64 word \<times> byte list)" where
  "readUintCore b expectedMajor =
     (if length b < 1 then Inl ErrShortBytes
      else let major = getMajorType (b ! 0) in
        if major \<noteq> expectedMajor then Inl (badPrefix major expectedMajor)
        else let addInfo = getAddInfo (b ! 0) in
          if addInfo \<le> addInfoDirect then Inr (ucast addInfo, drop 1 b)
          else if addInfo = addInfoUint8 then
            (if length b < 2 then Inl ErrShortBytes else Inr (ucast (b ! 1), drop 2 b))
          else if addInfo = addInfoUint16 then
            (if length b < 3 then Inl ErrShortBytes
             else Inr (ucast (Uint16 (drop 1 b)), drop 3 b))
          else if addInfo = addInfoUint32 then
            (if length b < 5 then Inl ErrShortBytes
             else Inr (ucast (Uint32 (drop 1 b)), drop 5 b))
          else if addInfo = addInfoUint64 then
            (if length b < 9 then Inl ErrShortBytes
             else Inr (Uint64 (drop 1 b), drop 9 b))
          else Inl ErrUnsupportedType)"

text \<open>
  \<open>ReadInt64Bytes\<close> matches the lead byte directly.  \<open>math.MaxInt64\<close> is
  \<open>0x7FFFFFFFFFFFFFFF\<close>; \<open>int64(u)\<close> keeps the bits.
\<close>

definition ReadInt64Bytes :: "byte list \<Rightarrow> error + (64 word \<times> byte list)" where
  "ReadInt64Bytes b =
     (if length b < 1 then Inl ErrShortBytes
      else let lead = b ! 0 in
        if lead \<le> 0x17 then Inr (ucast lead, drop 1 b)
        else if lead = 0x18 then
          (if length b < 2 then Inl ErrShortBytes else Inr (ucast (b ! 1), drop 2 b))
        else if lead = 0x19 then
          (if length b < 3 then Inl ErrShortBytes
           else Inr (ucast (Uint16 (drop 1 b)), drop 3 b))
        else if lead = 0x1a then
          (if length b < 5 then Inl ErrShortBytes
           else Inr (ucast (Uint32 (drop 1 b)), drop 5 b))
        else if lead = 0x1b then
          (if length b < 9 then Inl ErrShortBytes
           else let u = Uint64 (drop 1 b) in
             if u > 0x7FFFFFFFFFFFFFFF then Inl (IntOverflow u 64)
             else Inr (u, drop 9 b))
        else if lead \<ge> 0x20 \<and> lead \<le> 0x37 then
          Inr (- 1 - ucast (lead - 0x20), drop 1 b)
        else if lead = 0x38 then
          (if length b < 2 then Inl ErrShortBytes else Inr (- 1 - ucast (b ! 1), drop 2 b))
        else if lead = 0x39 then
          (if length b < 3 then Inl ErrShortBytes
           else Inr (- 1 - ucast (Uint16 (drop 1 b)), drop 3 b))
        else if lead = 0x3a then
          (if length b < 5 then Inl ErrShortBytes
           else Inr (- 1 - ucast (Uint32 (drop 1 b)), drop 5 b))
        else if lead = 0x3b then
          (if length b < 9 then Inl ErrShortBytes
           else let u = Uint64 (drop 1 b) in
             if u > 0x7FFFFFFFFFFFFFFF then Inl (IntOverflow (- 1) 64)
             else Inr (- 1 - u, drop 9 b))
        else Inl (badPrefix (drop_bit 5 lead AND 0x07) majorTypeUint))"



text \<open>
  \<open>ReadStringZC\<close>.  \<open>int\<close> is 64 bits wide (\<open>math.MaxInt = 2^63 - 1\<close>); lengths are
  natural numbers.  \<open>stringTail\<close> is the code after the \<open>switch\<close>: the bounds guard and
  the two slices.
\<close>

definition stringTail :: "byte list \<Rightarrow> nat \<Rightarrow> nat \<Rightarrow> error + (byte list \<times> byte list)" where
  "stringTail b sz start =
     (if start > length b then Inl ErrShortBytes
      else if sz > length b - start then Inl ErrShortBytes
      else Inr (take sz (drop start b), drop (start + sz) b))"

definition ReadStringZC :: "byte list \<Rightarrow> error + (byte list \<times> byte list)" where
  "ReadStringZC b =
     (if length b < 1 then Inl ErrShortBytes
      else let lead = b ! 0 in
        if lead \<ge> 0x60 \<and> lead \<le> 0x77 then
          (let sz = unat (lead AND 0x1f) in
           if length b < 1 + sz then Inl ErrShortBytes
           else Inr (take sz (drop 1 b), drop (1 + sz) b))
        else if lead = 0x78 then
          (if length b < 2 then Inl ErrShortBytes else stringTail b (unat (b ! 1)) 2)
        else if lead = 0x79 then
          (if length b < 3 then Inl ErrShortBytes
           else stringTail b (unat (Uint16 (drop 1 b))) 3)
        else if lead = 0x7a then
          (if length b < 5 then Inl ErrShortBytes
           else stringTail b (unat (Uint32 (drop 1 b))) 5)
        else if lead = 0x7b then
          (if length b < 9 then Inl ErrShortBytes
           else let u64 = Uint64 (drop 1 b) in
             if u64 > 0x7FFFFFFFFFFFFFFF then Inl (UintOverflow u64 64)
             else stringTail b (unat u64) 9)
        else Inl (badPrefix (getMajorType lead) majorTypeText))"

definition ReadMapHeaderBytes :: "byte list \<Rightarrow> error + (32 word \<times> byte list)" where
  "ReadMapHeaderBytes b =
     (if length b < 1 then Inl ErrShortBytes
      else let lead = b ! 0 in
        if lead \<ge> 0xa0 \<and> lead \<le> 0xb7 then Inr (ucast (lead - 0xa0), drop 1 b)
        else if lead = 0xb8 then
          (if length b < 2 then Inl ErrShortBytes else Inr (ucast (b ! 1), drop 2 b))
        else if lead = 0xb9 then
          (if length b < 3 then Inl ErrShortBytes
           else Inr (ucast (Uint16 (drop 1 b)), drop 3 b))
        else if lead = 0xba then
          (if length b < 5 then Inl ErrShortBytes else Inr (Uint32 (drop 1 b), drop 5 b))
        else if lead = 0xbb then
          (if length b < 9 then Inl ErrShortBytes
           else let u = Uint64 (drop 1 b) in
             if u > 0xFFFFFFFF then Inl (UintOverflow u 32)
             else Inr (ucast u, drop 9 b))
        else Inl (badPrefix (getMajorType lead) majorTypeMap))"

definition ReadArrayHeaderBytes :: "byte list \<Rightarrow> error + (32 word \<times> byte list)" where
  "ReadArrayHeaderBytes b =
     (if length b < 1 then Inl ErrShortBytes
      else let lead = b ! 0 in
        if lead \<ge> 0x80 \<and> lead \<le> 0x97 then Inr (ucast (lead - 0x80), drop 1 b)
        else if lead = 0x98 then
          (if length b < 2 then Inl ErrShortBytes else Inr (ucast (b ! 1), drop 2 b))
        else if lead = 0x99 then
          (if length b < 3 then Inl ErrShortBytes
           else Inr (ucast (Uint16 (drop 1 b)), drop 3 b))
        else if lead = 0x9a then
          (if length b < 5 then Inl ErrShortBytes else Inr (Uint32 (drop 1 b), drop 5 b))
        else if lead = 0x9b then
          (if length b < 9 then Inl ErrShortBytes
           else let u = Uint64 (drop 1 b) in
             if u > 0xFFFFFFFF then Inl (UintOverflow u 32)
             else Inr (ucast u, drop 9 b))
        else Inl (badPrefix (getMajorType lead) majorTypeArray))"

section \<open>Skip and well-formedness (runtime/read_bytes.go, runtime/helpers.go)\<close>

text \<open>
  A reader that fails returns the input slice and the error; the model returns the
  error alone (\<open>Inl\<close>), the input being the argument.  \<open>skip\<close> and
  \<open>validateWellFormed\<close> recurse on nested items and loop over the elements of a
  container.  The recursion is structural on a fuel argument and an indefinite-length
  loop counts its rounds down from a budget; running out of either is the value \<open>None\<close>.
  The facts \<open>Skip_total\<close> and \<open>ValidateWellFormedBytes_total\<close> below show that the
  entry points never do.
\<close>

type_synonym 'a outcome = "(error + 'a) option"

text \<open>\<open>andThen r f\<close>: the pattern \<open>x, err := ...; if err != nil { return b, err }; f(x)\<close>.\<close>

definition andThen :: "'a outcome \<Rightarrow> ('a \<Rightarrow> 'b outcome) \<Rightarrow> 'b outcome" where
  "andThen r f =
     (case r of None \<Rightarrow> None | Some (Inl err) \<Rightarrow> Some (Inl err) | Some (Inr x) \<Rightarrow> f x)"

text \<open>\<open>for i := uint64(0); i < sz; i++ { p, err = body(p); ... }; return p, nil\<close>\<close>

primrec forCount ::
  "nat \<Rightarrow> (byte list \<Rightarrow> byte list outcome) \<Rightarrow> byte list \<Rightarrow> byte list outcome" where
  "forCount 0 body p = Some (Inr p)"
| "forCount (Suc n) body p = andThen (body p) (forCount n body)"

text \<open>
  \<open>for { if len(p) < 1 { return b, ErrShortBytes }; if p[0] == 0xff { return p[1:], nil };
  p, err = body(p); ... }\<close>, with a budget of rounds.
\<close>

primrec untilBreak ::
  "nat \<Rightarrow> (byte list \<Rightarrow> byte list outcome) \<Rightarrow> byte list \<Rightarrow> byte list outcome" where
  "untilBreak 0 body p = None"
| "untilBreak (Suc k) body p =
     (if length p < 1 then Some (Inl ErrShortBytes)
      else if p ! 0 = makeByte majorTypeSimple simpleBreak then Some (Inr (drop 1 p))
      else andThen (body p) (untilBreak k body))"

lemma readUintCore_drop:
  assumes "readUintCore b m = Inr (u, p)"
  shows "(p = drop 1 b \<and> 1 \<le> length b) \<or> (p = drop 2 b \<and> 2 \<le> length b)
     \<or> (p = drop 3 b \<and> 3 \<le> length b) \<or> (p = drop 5 b \<and> 5 \<le> length b)
     \<or> (p = drop 9 b \<and> 9 \<le> length b)"
  using assms
  unfolding readUintCore_def Let_def
  by (auto split: if_splits simp: Suc_le_eq)

lemma readUintCore_length:
  "readUintCore b m = Inr (u, p) \<Longrightarrow> length p < length b"
  using readUintCore_drop[of b m u p] by auto

lemma ReadStringZC_length:
  assumes "ReadStringZC b = Inr (s, p)"
  shows "length p < length b"
  using assms
  unfolding ReadStringZC_def stringTail_def Let_def
  by (auto split: if_splits)

text \<open>The chunk loop of an indefinite-length byte or text string in \<open>skip\<close>.\<close>

function skipChunks :: "byte \<Rightarrow> byte list \<Rightarrow> error + byte list" where
  "skipChunks major p =
     (if length p < 1 then Inl ErrShortBytes
      else if p ! 0 = makeByte majorTypeSimple simpleBreak then Inr (drop 1 p)
      else case readUintCore p major of
             Inl err \<Rightarrow> Inl err
           | Inr (sz, q) \<Rightarrow>
               if length q < unat sz then Inl ErrShortBytes
               else skipChunks major (drop (unat sz) q))"
  by pat_completeness auto
termination
  by (relation "measure (\<lambda>(major, p). length p)") (auto dest: readUintCore_length)

declare skipChunks.simps [simp del]

text \<open>
  What one call does before it recurses or loops: the answer (\<open>Done\<close>), or the nested
  item or container body that is walked next.
\<close>

datatype walk =
    Done "error + byte list"
  | Nested "byte list"
  | ArrayIndef "byte list"
  | ArrayDef nat "byte list"
  | MapIndef "byte list"
  | MapDef nat "byte list"

text \<open>The cases of the \<open>switch major\<close> in \<open>skip\<close>, one definition each.\<close>

definition walkInt :: "byte list \<Rightarrow> byte \<Rightarrow> walk" where
  "walkInt b major =
     (case readUintCore b major of
        Inl err \<Rightarrow> Done (Inl err)
      | Inr (u, p) \<Rightarrow> if major = majorTypeTag then Nested p else Done (Inr p))"

definition skipString :: "byte list \<Rightarrow> byte \<Rightarrow> byte \<Rightarrow> walk" where
  "skipString b major addInfo =
     (if addInfo = addInfoIndefinite then Done (skipChunks major (drop 1 b))
      else case readUintCore b major of
             Inl err \<Rightarrow> Done (Inl err)
           | Inr (sz, p) \<Rightarrow>
               if length p < unat sz then Done (Inl ErrShortBytes)
               else Done (Inr (drop (unat sz) p)))"

definition walkArray :: "byte list \<Rightarrow> byte \<Rightarrow> walk" where
  "walkArray b addInfo =
     (if addInfo = addInfoIndefinite then ArrayIndef (drop 1 b)
      else case readUintCore b majorTypeArray of
             Inl err \<Rightarrow> Done (Inl err)
           | Inr (sz, p) \<Rightarrow> ArrayDef (unat sz) p)"

definition walkMap :: "byte list \<Rightarrow> byte \<Rightarrow> walk" where
  "walkMap b addInfo =
     (if addInfo = addInfoIndefinite then MapIndef (drop 1 b)
      else case readUintCore b majorTypeMap of
             Inl err \<Rightarrow> Done (Inl err)
           | Inr (sz, p) \<Rightarrow> MapDef (unat sz) p)"

definition skipSimple :: "byte list \<Rightarrow> byte \<Rightarrow> walk" where
  "skipSimple b addInfo =
     (if addInfo = simpleFalse \<or> addInfo = simpleTrue \<or> addInfo = simpleNull
         \<or> addInfo = simpleUndefined then Done (Inr (drop 1 b))
      else if addInfo = simpleFloat16 then
        (if length b < 3 then Done (Inl ErrShortBytes) else Done (Inr (drop 3 b)))
      else if addInfo = simpleFloat32 then
        (if length b < 5 then Done (Inl ErrShortBytes) else Done (Inr (drop 5 b)))
      else if addInfo = simpleFloat64 then
        (if length b < 9 then Done (Inl ErrShortBytes) else Done (Inr (drop 9 b)))
      else if addInfo < 20 then Done (Inr (drop 1 b))
      else Done (Inl ErrUnsupportedType))"

definition skipHead :: "byte list \<Rightarrow> nat \<Rightarrow> walk" where
  "skipHead b depth =
     (if depth > recursionLimit then Done (Inl ErrMaxDepthExceeded)
      else if length b < 1 then Done (Inl ErrShortBytes)
      else let major = getMajorType (b ! 0); addInfo = getAddInfo (b ! 0) in
        if major = majorTypeUint \<or> major = majorTypeNegInt \<or> major = majorTypeTag
          then walkInt b major
        else if major = majorTypeBytes \<or> major = majorTypeText
          then skipString b major addInfo
        else if major = majorTypeArray then walkArray b addInfo
        else if major = majorTypeMap then walkMap b addInfo
        else if major = majorTypeSimple then skipSimple b addInfo
        else Done (Inl ErrUnsupportedType))"

primrec skip :: "nat \<Rightarrow> byte list \<Rightarrow> nat \<Rightarrow> byte list outcome" where
  "skip 0 b depth = None"
| "skip (Suc fuel) b depth =
     (case skipHead b depth of
        Done r \<Rightarrow> Some r
      | Nested p \<Rightarrow> skip fuel p (depth + 1)
      | ArrayIndef p \<Rightarrow> untilBreak (length p + 1) (\<lambda>q. skip fuel q (depth + 1)) p
      | ArrayDef sz p \<Rightarrow> forCount sz (\<lambda>q. skip fuel q (depth + 1)) p
      | MapIndef p \<Rightarrow>
          untilBreak (length p + 1)
            (\<lambda>q. andThen (skip fuel q (depth + 1)) (\<lambda>q1. skip fuel q1 (depth + 1))) p
      | MapDef sz p \<Rightarrow>
          forCount sz
            (\<lambda>q. andThen (skip fuel q (depth + 1)) (\<lambda>q1. skip fuel q1 (depth + 1))) p)"

text \<open>
  \<open>Skip(b) = skip(b, 0)\<close>.  A call at depth \<open>recursionLimit + 1\<close> returns
  \<open>ErrMaxDepthExceeded\<close> at once, so \<open>recursionLimit + 2\<close> nested calls are the most
  there can be.
\<close>

definition Skip :: "byte list \<Rightarrow> byte list outcome" where
  "Skip b = skip (recursionLimit + 2) b 0"

subsection \<open>\<open>validateWellFormed\<close> (runtime/helpers.go)\<close>

text \<open>
  \<open>isUTF8Valid\<close> is a package variable holding a function (by default the standard
  library's \<open>utf8.Valid\<close>); it is the parameter \<open>isUTF8Valid\<close> here.
\<close>

function validateBytesChunks :: "byte list \<Rightarrow> error + byte list" where
  "validateBytesChunks p =
     (if length p < 1 then Inl ErrShortBytes
      else if p ! 0 = makeByte majorTypeSimple simpleBreak then Inr (drop 1 p)
      else case readUintCore p majorTypeBytes of
             Inl err \<Rightarrow> Inl err
           | Inr (sz, q) \<Rightarrow>
               if length q < unat sz then Inl ErrShortBytes
               else validateBytesChunks (drop (unat sz) q))"
  by pat_completeness auto
termination
  by (relation "measure length") (auto dest: readUintCore_length)

declare validateBytesChunks.simps [simp del]

function validateTextChunks :: "(byte list \<Rightarrow> bool) \<Rightarrow> byte list \<Rightarrow> error + byte list" where
  "validateTextChunks isUTF8Valid p =
     (if length p < 1 then Inl ErrShortBytes
      else if p ! 0 = makeByte majorTypeSimple simpleBreak then Inr (drop 1 p)
      else case ReadStringZC p of
             Inl err \<Rightarrow> Inl err
           | Inr (chunk, q) \<Rightarrow>
               if \<not> isUTF8Valid chunk then Inl ErrInvalidUTF8
               else validateTextChunks isUTF8Valid q)"
  by pat_completeness auto
termination
  by (relation "measure (\<lambda>(v, p). length p)") (auto dest: ReadStringZC_length)

declare validateTextChunks.simps [simp del]

text \<open>
  The cases of the \<open>switch major\<close> in \<open>validateWellFormed\<close>.  Its integer and tag,
  array and map cases are the code of \<open>skip\<close> again (\<open>walkInt\<close>, \<open>walkArray\<close>,
  \<open>walkMap\<close>).
\<close>

definition validateBytes :: "byte list \<Rightarrow> byte \<Rightarrow> walk" where
  "validateBytes b add =
     (if add = addInfoIndefinite then Done (validateBytesChunks (drop 1 b))
      else case readUintCore b majorTypeBytes of
             Inl err \<Rightarrow> Done (Inl err)
           | Inr (sz, p) \<Rightarrow>
               if length p < unat sz then Done (Inl ErrShortBytes)
               else Done (Inr (drop (unat sz) p)))"

definition validateText :: "(byte list \<Rightarrow> bool) \<Rightarrow> byte list \<Rightarrow> byte \<Rightarrow> walk" where
  "validateText isUTF8Valid b add =
     (if add = addInfoIndefinite then Done (validateTextChunks isUTF8Valid (drop 1 b))
      else case ReadStringZC b of
             Inl err \<Rightarrow> Done (Inl err)
           | Inr (s, p) \<Rightarrow>
               if \<not> isUTF8Valid s then Done (Inl ErrInvalidUTF8) else Done (Inr p))"

definition validateSimple :: "byte list \<Rightarrow> byte \<Rightarrow> walk" where
  "validateSimple b add =
     (if add = simpleFalse \<or> add = simpleTrue \<or> add = simpleNull
         \<or> add = simpleUndefined then Done (Inr (drop 1 b))
      else if add = simpleFloat16 then
        (if length b < 3 then Done (Inl ErrShortBytes) else Done (Inr (drop 3 b)))
      else if add = simpleFloat32 then
        (if length b < 5 then Done (Inl ErrShortBytes) else Done (Inr (drop 5 b)))
      else if add = simpleFloat64 then
        (if length b < 9 then Done (Inl ErrShortBytes) else Done (Inr (drop 9 b)))
      else if add = addInfoUint8 then
        (if length b < 2 then Done (Inl ErrShortBytes) else Done (Inr (drop 2 b)))
      else if add < 20 then Done (Inr (drop 1 b))
      else Done (Inl ErrUnsupportedType))"

definition validateHead :: "(byte list \<Rightarrow> bool) \<Rightarrow> byte list \<Rightarrow> nat \<Rightarrow> walk" where
  "validateHead isUTF8Valid b depth =
     (if depth > recursionLimit then Done (Inl ErrMaxDepthExceeded)
      else if length b < 1 then Done (Inl ErrShortBytes)
      else let lead = b ! 0; major = getMajorType lead; add = getAddInfo lead in
        if add = 28 \<or> add = 29 \<or> add = 30 then Done (Inl (InvalidPrefixError major major))
        else if major = majorTypeUint \<or> major = majorTypeNegInt \<or> major = majorTypeTag
          then walkInt b major
        else if major = majorTypeBytes then validateBytes b add
        else if major = majorTypeText then validateText isUTF8Valid b add
        else if major = majorTypeArray then walkArray b add
        else if major = majorTypeMap then walkMap b add
        else if major = majorTypeSimple then validateSimple b add
        else Done (Inl ErrUnsupportedType))"

primrec validateWellFormed ::
  "(byte list \<Rightarrow> bool) \<Rightarrow> nat \<Rightarrow> byte list \<Rightarrow> nat \<Rightarrow> byte list outcome" where
  "validateWellFormed isUTF8Valid 0 b depth = None"
| "validateWellFormed isUTF8Valid (Suc fuel) b depth =
     (case validateHead isUTF8Valid b depth of
        Done r \<Rightarrow> Some r
      | Nested p \<Rightarrow> validateWellFormed isUTF8Valid fuel p (depth + 1)
      | ArrayIndef p \<Rightarrow>
          untilBreak (length p + 1) (\<lambda>q. validateWellFormed isUTF8Valid fuel q (depth + 1)) p
      | ArrayDef sz p \<Rightarrow>
          forCount sz (\<lambda>q. validateWellFormed isUTF8Valid fuel q (depth + 1)) p
      | MapIndef p \<Rightarrow>
          untilBreak (length p + 1)
            (\<lambda>q. andThen (validateWellFormed isUTF8Valid fuel q (depth + 1))
                    (\<lambda>q1. validateWellFormed isUTF8Valid fuel q1 (depth + 1))) p
      | MapDef sz p \<Rightarrow>
          forCount sz
            (\<lambda>q. andThen (validateWellFormed isUTF8Valid fuel q (depth + 1))
                    (\<lambda>q1. validateWellFormed isUTF8Valid fuel q1 (depth + 1))) p)"

definition ValidateWellFormedBytes :: "(byte list \<Rightarrow> bool) \<Rightarrow> byte list \<Rightarrow> byte list outcome" where
  "ValidateWellFormedBytes isUTF8Valid b =
     validateWellFormed isUTF8Valid (recursionLimit + 2) b 0"

section \<open>Maps without duplicate keys (runtime/read_bytes.go)\<close>

text \<open>
  \<open>seen\<close> is the Go map from raw key strings to \<open>struct{}\<close>: a set of byte strings.
  \<open>noDupEntry\<close> is the body shared by the two loops of \<open>ReadMapNoDupBytes\<close>: skip the
  key, look its raw bytes up, record them, skip the value.
\<close>

definition noDupEntry ::
  "byte list set \<Rightarrow> byte list \<Rightarrow> (byte list set \<times> byte list) outcome" where
  "noDupEntry seen p =
     andThen (Skip p) (\<lambda>r.
       let keyLen = length p - length r; rawKey = take keyLen p in
       if rawKey \<in> seen then Some (Inl ErrDuplicateMapKey)
       else andThen (Skip r) (\<lambda>r2. Some (Inr (insert rawKey seen, r2))))"

primrec noDupDef :: "nat \<Rightarrow> byte list set \<Rightarrow> byte list \<Rightarrow> byte list outcome" where
  "noDupDef 0 seen p = Some (Inr p)"
| "noDupDef (Suc n) seen p =
     andThen (noDupEntry seen p) (\<lambda>(seen', p'). noDupDef n seen' p')"

primrec noDupIndef :: "nat \<Rightarrow> byte list set \<Rightarrow> byte list \<Rightarrow> byte list outcome" where
  "noDupIndef 0 seen p = None"
| "noDupIndef (Suc k) seen p =
     (if length p < 1 then Some (Inl ErrShortBytes)
      else if p ! 0 = makeByte majorTypeSimple simpleBreak then Some (Inr (drop 1 p))
      else andThen (noDupEntry seen p) (\<lambda>(seen', p'). noDupIndef k seen' p'))"

definition ReadMapNoDupBytes :: "byte list \<Rightarrow> byte list outcome" where
  "ReadMapNoDupBytes b =
     (if length b < 1 then Some (Inl ErrShortBytes)
      else if getMajorType (b ! 0) \<noteq> majorTypeMap
        then Some (Inl (badPrefix majorTypeMap (getMajorType (b ! 0))))
      else if getAddInfo (b ! 0) = addInfoIndefinite
        then noDupIndef (length (drop 1 b) + 1) {} (drop 1 b)
      else case ReadMapHeaderBytes b of
             Inl err \<Rightarrow> Some (Inl err)
           | Inr (sz, p) \<Rightarrow> noDupDef (unat sz) {} p)"

section \<open>Facts about the wire primitives\<close>

lemma mask5: "(0x1f::byte) = mask 5"
  by (simp add: mask_eq_exp_minus_1)

lemma mask3: "(0x07::byte) = mask 3"
  by (simp add: mask_eq_exp_minus_1)







lemma getAddInfo_le: "getAddInfo x \<le> 31"
  unfolding getAddInfo_def by (metis word_and_le1)

lemma getMajorType_le: "getMajorType x \<le> 7"
  unfolding getMajorType_def by (metis word_and_le1)

lemma makeByte_get: "makeByte (getMajorType x) (getAddInfo x) = x"
  unfolding getMajorType_def getAddInfo_def makeByte_def mask3 mask5
  by (rule bit_word_eqI) (auto simp: bit_simps)

lemma makeByte0: "makeByte 0 a = a"
  by (simp add: makeByte_def)

subsection \<open>Big-endian round trips\<close>

lemma Uint16_PutUint16: "Uint16 (PutUint16 v @ r) = v"
proof (rule bit_word_eqI)
  fix n assume "n < LENGTH(16)"
  then consider "n < 8" | "8 \<le> n \<and> n < 16"
    by fastforce
  then show "bit (Uint16 (PutUint16 v @ r)) n = bit v n"
    by cases (auto simp add: Uint16_def PutUint16_def bit_simps)
qed

lemma Uint32_PutUint32: "Uint32 (PutUint32 v @ r) = v"
proof (rule bit_word_eqI)
  fix n assume "n < LENGTH(32)"
  then consider "n < 8" | "8 \<le> n \<and> n < 16" | "16 \<le> n \<and> n < 24" | "24 \<le> n \<and> n < 32"
    by fastforce
  then show "bit (Uint32 (PutUint32 v @ r)) n = bit v n"
    by cases (auto simp add: Uint32_def PutUint32_def bit_simps)
qed

lemma Uint64_PutUint64: "Uint64 (PutUint64 v @ r) = v"
proof (rule bit_word_eqI)
  fix n assume "n < LENGTH(64)"
  then consider "n < 8" | "8 \<le> n \<and> n < 16" | "16 \<le> n \<and> n < 24" | "24 \<le> n \<and> n < 32"
    | "32 \<le> n \<and> n < 40" | "40 \<le> n \<and> n < 48" | "48 \<le> n \<and> n < 56"
    | "56 \<le> n \<and> n < 64"
    by fastforce
  then show "bit (Uint64 (PutUint64 v @ r)) n = bit v n"
    by cases (auto simp add: Uint64_def PutUint64_def bit_simps)
qed

lemma length_Put [simp]:
  "length (PutUint16 a) = 2" "length (PutUint32 b) = 4" "length (PutUint64 c) = 8"
  by (simp_all add: PutUint16_def PutUint32_def PutUint64_def)

subsection \<open>Narrowing and widening of small values\<close>

lemma ucast8_id: "(u::64 word) \<le> 0xFF \<Longrightarrow> ucast (ucast u :: 8 word) = u"
  by transfer (simp add: take_bit_eq_mod)

lemma ucast16_id: "(u::64 word) \<le> 0xFFFF \<Longrightarrow> ucast (ucast u :: 16 word) = u"
  by transfer (simp add: take_bit_eq_mod)

lemma ucast32_id: "(u::64 word) \<le> 0xFFFFFFFF \<Longrightarrow> ucast (ucast u :: 32 word) = u"
  by transfer (simp add: take_bit_eq_mod)

lemma ucast8_le23: "(u::64 word) \<le> 23 \<Longrightarrow> (ucast u :: 8 word) \<le> 23"
  by transfer (simp add: take_bit_eq_mod)

lemma ucast8_id23: "(u::64 word) \<le> 23 \<Longrightarrow> ucast (ucast u :: 8 word) = u"
  by transfer (simp add: take_bit_eq_mod)

lemma u64_width_cases [case_names direct w8 w16 w32 w64]:
  fixes u :: "64 word"
  obtains "u \<le> 23"
  | "\<not> u \<le> 23" "u \<le> 0xFF"
  | "\<not> u \<le> 23" "\<not> u \<le> 0xFF" "u \<le> 0xFFFF"
  | "\<not> u \<le> 23" "\<not> u \<le> 0xFF" "\<not> u \<le> 0xFFFF" "u \<le> 0xFFFFFFFF"
  | "\<not> u \<le> 23" "\<not> u \<le> 0xFF" "\<not> u \<le> 0xFFFF" "\<not> u \<le> 0xFFFFFFFF"
  by blast

lemma nat_lt24_cases:
  "(n::nat) < 24 \<Longrightarrow>
     n \<in> {0,1,2,3,4,5,6,7,8,9,10,11,12,13,14,15,16,17,18,19,20,21,22,23}"
  by (simp only: insert_iff empty_iff) arith

lemma u64_le23_cases:
  assumes "(u::64 word) \<le> 23"
  shows "u \<in> {0,1,2,3,4,5,6,7,8,9,10,11,12,13,14,15,16,17,18,19,20,21,22,23}"
proof -
  have "unat u < 24" using assms by (simp add: word_le_nat_alt)
  from nat_lt24_cases[OF this]
  have "of_nat (unat u) \<in>
      ((of_nat ` {0,1,2,3,4,5,6,7,8,9,10,11,12,13,14,15,16,17,18,19,20,21,22,23})
        :: 64 word set)"
    by blast
  then show ?thesis by simp
qed

subsection \<open>Two's complement on 64 bits\<close>

lemma mod_wrap_gen:
  fixes x p q :: int
  assumes "q = 2 * p" "p \<le> x" "x < q"
  shows "(x + p) mod q = x - p"
proof -
  have "x + p = (x - p) + 1 * q" using assms(1) by simp
  then have "(x + p) mod q = ((x - p) + 1 * q) mod q" by (rule arg_cong)
  also have "\<dots> = (x - p) mod q" by (rule mod_mult_self1)
  also have "\<dots> = x - p" using assms by (intro mod_pos_pos_trivial) simp_all
  finally show ?thesis .
qed

lemma sint64_alt: "sint (i::64 word) = (if uint i < 2^63 then uint i else uint i - 2^64)"
proof (cases "uint i < 2^63")
  case True
  then show ?thesis using uint_ge_0[of i]
    by (simp add: sint_uint signed_take_bit_eq_take_bit_shift take_bit_eq_mod)
next
  case False
  then have "2 ^ 63 \<le> uint i" by simp
  moreover have "uint i < 2 ^ 64" using uint_lt2p[of i] by simp
  ultimately have "(uint i + 2 ^ 63) mod 2 ^ 64 = uint i - 2 ^ 63"
    by (intro mod_wrap_gen) simp_all
  then show ?thesis using False
    by (simp add: sint_uint signed_take_bit_eq_take_bit_shift take_bit_eq_mod)
qed

lemma sint_small_iff: "(0 \<le> sint n \<and> sint n \<le> 23) \<longleftrightarrow> n \<le> (23::64 word)"
  using uint_lt2p[of n] uint_ge_0[of n]
  by (auto simp add: sint64_alt word_le_def split: if_splits)

lemma sint_nonneg_iff: "0 \<le> sint n \<longleftrightarrow> n \<le> (0x7FFFFFFFFFFFFFFF::64 word)"
  using uint_lt2p[of n] uint_ge_0[of n]
  by (auto simp add: sint64_alt word_le_def split: if_splits)

lemma neg_pred_nonneg:
  assumes "\<not> 0 \<le> sint (i::64 word)"
  shows "- 1 - i \<le> (0x7FFFFFFFFFFFFFFF::64 word)"
proof -
  have big: "2 ^ 63 \<le> uint i" using assms by (simp add: sint64_alt split: if_splits)
  have m1: "uint (- 1 :: 64 word) = 2 ^ 64 - 1"
    by (simp add: unsigned_minus_1_eq_mask mask_eq_exp_minus_1)
  have "uint (- 1 - i) = uint (- 1 :: 64 word) - uint i"
    using uint_lt2p[of i] by (simp add: uint_sub_if' m1)
  then show ?thesis using big by (simp add: word_le_def m1)
qed


section \<open>Canonical integer headers\<close>

lemma read_pos:
  assumes "u \<le> 0x7FFFFFFFFFFFFFFF"
  shows "ReadInt64Bytes (appendUintCore [] majorTypeUint u @ r) = Inr (u, r)"
proof (cases u rule: u64_width_cases)
  case direct
  then show ?thesis
    by (simp add: appendUintCore_def wire_consts makeByte0 ReadInt64Bytes_def ucast8_le23 ucast8_id23)
next
  case w8
  then show ?thesis
    by (simp add: appendUintCore_def wire_consts makeByte0 ReadInt64Bytes_def ucast8_id)
next
  case w16
  then show ?thesis
    by (simp add: appendUintCore_def wire_consts makeByte0 ReadInt64Bytes_def Uint16_PutUint16 ucast16_id)
next
  case w32
  then show ?thesis
    by (simp add: appendUintCore_def wire_consts makeByte0 ReadInt64Bytes_def Uint32_PutUint32 ucast32_id)
next
  case w64
  then show ?thesis using assms
    by (simp add: appendUintCore_def wire_consts makeByte0 ReadInt64Bytes_def Uint64_PutUint64 not_less)
qed

lemma read_neg_direct:
  assumes "(u::64 word) \<le> 23"
  shows "ReadInt64Bytes (makeByte majorTypeNegInt (ucast u) # r) = Inr (- 1 - u, r)"
  using u64_le23_cases[OF assms]
  by (elim insertE emptyE; simp add: ReadInt64Bytes_def makeByte_def wire_consts)

lemma read_neg:
  assumes "u \<le> 0x7FFFFFFFFFFFFFFF"
  shows "ReadInt64Bytes (appendUintCore [] majorTypeNegInt u @ r) = Inr (- 1 - u, r)"
proof (cases u rule: u64_width_cases)
  case direct
  then show ?thesis
    by (simp add: appendUintCore_def addInfoDirect_def read_neg_direct)
next
  case w8
  then show ?thesis
    by (simp add: appendUintCore_def wire_consts makeByte_def ReadInt64Bytes_def ucast8_id)
next
  case w16
  then show ?thesis
    by (simp add: appendUintCore_def wire_consts makeByte_def ReadInt64Bytes_def Uint16_PutUint16 ucast16_id)
next
  case w32
  then show ?thesis
    by (simp add: appendUintCore_def wire_consts makeByte_def ReadInt64Bytes_def Uint32_PutUint32 ucast32_id)
next
  case w64
  then show ?thesis using assms
    by (simp add: appendUintCore_def wire_consts makeByte_def ReadInt64Bytes_def Uint64_PutUint64 not_less)
qed

lemma AppendInt64_alt:
  "AppendInt64 b i = (if 0 \<le> sint i then appendUintCore b majorTypeUint i
                      else appendUintCore b majorTypeNegInt (- 1 - i))"
proof (cases "0 \<le> sint i")
  case True
  then show ?thesis
    using sint_small_iff[of i]
    by (auto simp add: AppendInt64_def appendUintCore_def addInfoDirect_def)
next
  case False
  then have "0 \<le> sint (- 1 - i)" using neg_pred_nonneg[of i] by (simp add: sint_nonneg_iff)
  then show ?thesis using False sint_small_iff[of "- 1 - i"]
    by (auto simp add: AppendInt64_def appendUintCore_def addInfoDirect_def Let_def)
qed








text \<open>
  Claim C2.  For every \<open>int64\<close> value \<open>v\<close>, decoding \<open>AppendInt64(nil, v)\<close> with
  \<open>ReadInt64Bytes\<close> succeeds, returns \<open>v\<close> and leaves no bytes.
\<close>

theorem AppendInt64_ReadInt64Bytes_roundtrip:
  "ReadInt64Bytes (AppendInt64 [] v) = Inr (v, [])"
proof (cases "0 \<le> sint v")
  case True
  then have "v \<le> 0x7FFFFFFFFFFFFFFF" by (simp add: sint_nonneg_iff)
  from read_pos[OF this, of "[]"] True show ?thesis by (simp add: AppendInt64_alt)
next
  case False
  from read_neg[OF neg_pred_nonneg[OF False], of "[]"] False show ?thesis
    by (simp add: AppendInt64_alt)
qed
section \<open>Facts about \<open>skip\<close>\<close>

lemma andThen_simps [simp]:
  "andThen None f = None"
  "andThen (Some (Inl e)) f = Some (Inl e)"
  "andThen (Some (Inr x)) f = f x"
  by (simp_all add: andThen_def)

lemma andThen_eq_Some_Inr:
  "andThen r f = Some (Inr y) \<longleftrightarrow> (\<exists>x. r = Some (Inr x) \<and> f x = Some (Inr y))"
  by (auto simp: andThen_def split: option.splits sum.splits)

lemma andThen_eq_None:
  "andThen r f = None \<longleftrightarrow> r = None \<or> (\<exists>x. r = Some (Inr x) \<and> f x = None)"
  by (auto simp: andThen_def split: option.splits sum.splits)

lemma forCount_total:
  assumes "\<And>q. body q \<noteq> None"
  shows "forCount n body p \<noteq> None"
  using assms by (induction n arbitrary: p) (auto simp: andThen_eq_None)

lemma forCount_length:
  assumes "\<And>q q'. body q = Some (Inr q') \<Longrightarrow> length q' \<le> length q"
      and "forCount n body p = Some (Inr p')"
  shows "length p' \<le> length p"
  using assms(2)
proof (induction n arbitrary: p)
  case 0
  then show ?case by simp
next
  case (Suc n)
  then obtain q where q: "body p = Some (Inr q)" "forCount n body q = Some (Inr p')"
    by (auto simp: andThen_eq_Some_Inr)
  from Suc.IH[OF q(2)] assms(1)[OF q(1)] show ?case by simp
qed

lemma untilBreak_total:
  assumes "\<And>q. body q \<noteq> None"
      and "\<And>q q'. body q = Some (Inr q') \<Longrightarrow> length q' < length q"
      and "length p < k"
  shows "untilBreak k body p \<noteq> None"
  using assms(3)
proof (induction k arbitrary: p)
  case 0
  then show ?case by simp
next
  case (Suc k)
  show ?case
  proof (cases "body p")
    case None
    then show ?thesis using assms(1) by simp
  next
    case (Some r)
    show ?thesis
    proof (cases r)
      case (Inl e)
      then show ?thesis using Some by simp
    next
      case (Inr q)
      then have "length q < length p" using Some assms(2) by simp
      then have "length q < k" using Suc.prems by simp
      from Suc.IH[OF this] show ?thesis using Some Inr by simp
    qed
  qed
qed

lemma untilBreak_length:
  assumes "\<And>q q'. body q = Some (Inr q') \<Longrightarrow> length q' \<le> length q"
      and "untilBreak k body p = Some (Inr p')"
  shows "length p' < length p"
  using assms(2)
proof (induction k arbitrary: p)
  case 0
  then show ?case by simp
next
  case (Suc k)
  show ?case
  proof (cases "length p < 1 \<or> p ! 0 = makeByte majorTypeSimple simpleBreak")
    case True
    then show ?thesis using Suc.prems by (auto split: if_splits)
  next
    case False
    then obtain q where q: "body p = Some (Inr q)" "untilBreak k body q = Some (Inr p')"
      using Suc.prems by (auto simp: andThen_eq_Some_Inr)
    from Suc.IH[OF q(2)] assms(1)[OF q(1)] show ?thesis by simp
  qed
qed

lemma skipChunks_length:
  "skipChunks major p = Inr q \<Longrightarrow> length q < length p"
proof (induction major p rule: skipChunks.induct)
  case (1 major p)
  show ?case
  proof (cases "length p < 1 \<or> p ! 0 = makeByte majorTypeSimple simpleBreak")
    case True
    then show ?thesis using "1.prems"
      by (subst (asm) skipChunks.simps) (auto split: if_splits)
  next
    case False
    then obtain sz r where r: "readUintCore p major = Inr (sz, r)" "\<not> length r < unat sz"
        "skipChunks major (drop (unat sz) r) = Inr q"
      using "1.prems" by (subst (asm) skipChunks.simps) (auto split: sum.splits if_splits)
    from "1.IH"[OF _ _ r(1) refl r(2) r(3)] False readUintCore_length[OF r(1)]
    show ?thesis by simp
  qed
qed


lemma walkInt_length:
  "walkInt b major = Done (Inr p) \<or> walkInt b major = Nested p \<Longrightarrow> length p < length b"
  by (auto simp: walkInt_def split: sum.splits if_splits dest: readUintCore_length)

lemma walkInt_shape:
  "walkInt b major \<noteq> ArrayIndef p" "walkInt b major \<noteq> ArrayDef n p"
  "walkInt b major \<noteq> MapIndef p" "walkInt b major \<noteq> MapDef n p"
  by (auto simp: walkInt_def split: sum.splits if_splits)

lemma skipString_length:
  "skipString b major addInfo = Done (Inr p) \<Longrightarrow> length p < length b"
  by (auto simp: skipString_def split: sum.splits if_splits
      dest!: readUintCore_length skipChunks_length)

lemma skipString_shape:
  "skipString b major addInfo \<noteq> Nested p"
  "skipString b major addInfo \<noteq> ArrayIndef p" "skipString b major addInfo \<noteq> ArrayDef n p"
  "skipString b major addInfo \<noteq> MapIndef p" "skipString b major addInfo \<noteq> MapDef n p"
  by (auto simp: skipString_def split: sum.splits if_splits)

lemma walkArray_length:
  "b \<noteq> [] \<Longrightarrow> walkArray b addInfo = ArrayIndef p \<or> walkArray b addInfo = ArrayDef n p
     \<Longrightarrow> length p < length b"
  by (auto simp: walkArray_def split: sum.splits if_splits dest: readUintCore_length)

lemma walkArray_shape:
  "walkArray b addInfo \<noteq> Done (Inr p)" "walkArray b addInfo \<noteq> Nested p"
  "walkArray b addInfo \<noteq> MapIndef p" "walkArray b addInfo \<noteq> MapDef n p"
  by (auto simp: walkArray_def split: sum.splits if_splits)

lemma walkMap_length:
  "b \<noteq> [] \<Longrightarrow> walkMap b addInfo = MapIndef p \<or> walkMap b addInfo = MapDef n p
     \<Longrightarrow> length p < length b"
  by (auto simp: walkMap_def split: sum.splits if_splits dest: readUintCore_length)

lemma walkMap_shape:
  "walkMap b addInfo \<noteq> Done (Inr p)" "walkMap b addInfo \<noteq> Nested p"
  "walkMap b addInfo \<noteq> ArrayIndef p" "walkMap b addInfo \<noteq> ArrayDef n p"
  by (auto simp: walkMap_def split: sum.splits if_splits)

lemma skipSimple_length:
  "b \<noteq> [] \<Longrightarrow> skipSimple b addInfo = Done (Inr p) \<Longrightarrow> length p < length b"
  by (auto simp: skipSimple_def split: if_splits)

lemma skipSimple_shape:
  "skipSimple b addInfo \<noteq> Nested p"
  "skipSimple b addInfo \<noteq> ArrayIndef p" "skipSimple b addInfo \<noteq> ArrayDef n p"
  "skipSimple b addInfo \<noteq> MapIndef p" "skipSimple b addInfo \<noteq> MapDef n p"
  by (auto simp: skipSimple_def split: if_splits)

lemmas walk_shapes = walkInt_shape skipString_shape walkArray_shape walkMap_shape skipSimple_shape

lemma skipHead_length:
  assumes "skipHead b depth = Done (Inr p) \<or> skipHead b depth = Nested p
     \<or> skipHead b depth = ArrayIndef p \<or> skipHead b depth = ArrayDef n p
     \<or> skipHead b depth = MapIndef p \<or> skipHead b depth = MapDef n p"
  shows "length p < length b"
  using assms walkInt_length[of b "getMajorType (b ! 0)" p]
    skipString_length[of b "getMajorType (b ! 0)" "getAddInfo (b ! 0)" p]
    walkArray_length[of b "getAddInfo (b ! 0)" p n]
    walkMap_length[of b "getAddInfo (b ! 0)" p n]
    skipSimple_length[of b "getAddInfo (b ! 0)" p]
  unfolding skipHead_def Let_def
  by (simp add: walk_shapes split: if_splits)

lemma skipHead_depth:
  assumes "skipHead b depth = Nested p
     \<or> skipHead b depth = ArrayIndef p \<or> skipHead b depth = ArrayDef n p
     \<or> skipHead b depth = MapIndef p \<or> skipHead b depth = MapDef n p"
  shows "depth \<le> recursionLimit"
  using assms unfolding skipHead_def by (auto split: if_splits)


lemma skip_length:
  "skip fuel b depth = Some (Inr p) \<Longrightarrow> length p < length b"
proof (induction fuel arbitrary: b depth p)
  case 0
  then show ?case by simp
next
  case (Suc fuel)
  have item: "\<And>q q'. skip fuel q (depth + 1) = Some (Inr q') \<Longrightarrow> length q' \<le> length q"
    using Suc.IH by (simp add: less_imp_le)
  have pair: "\<And>q q'. andThen (skip fuel q (depth + 1)) (\<lambda>q1. skip fuel q1 (depth + 1))
        = Some (Inr q') \<Longrightarrow> length q' \<le> length q"
  proof -
    fix q q'
    assume "andThen (skip fuel q (depth + 1)) (\<lambda>q1. skip fuel q1 (depth + 1)) = Some (Inr q')"
    then obtain q1 where "skip fuel q (depth + 1) = Some (Inr q1)"
        "skip fuel q1 (depth + 1) = Some (Inr q')"
      by (auto simp: andThen_eq_Some_Inr)
    then show "length q' \<le> length q" using Suc.IH[of q "depth + 1" q1] Suc.IH[of q1 "depth + 1" q']
      by simp
  qed
  show ?case
  proof (cases "skipHead b depth")
    case (Done r)
    then show ?thesis using Suc.prems skipHead_length[of b depth p] by simp
  next
    case (Nested q)
    then show ?thesis using Suc.prems Suc.IH[of q "depth + 1" p] skipHead_length[of b depth q]
      by simp
  next
    case (ArrayIndef q)
    then have "untilBreak (length q + 1) (\<lambda>q. skip fuel q (depth + 1)) q = Some (Inr p)"
      using Suc.prems by simp
    from untilBreak_length[OF item this] skipHead_length[of b depth q] ArrayIndef
    show ?thesis by simp
  next
    case (ArrayDef n q)
    then have "forCount n (\<lambda>q. skip fuel q (depth + 1)) q = Some (Inr p)"
      using Suc.prems by simp
    from forCount_length[OF item this] skipHead_length[of b depth q n] ArrayDef
    show ?thesis by simp
  next
    case (MapIndef q)
    then have "untilBreak (length q + 1)
        (\<lambda>q. andThen (skip fuel q (depth + 1)) (\<lambda>q1. skip fuel q1 (depth + 1))) q
        = Some (Inr p)"
      using Suc.prems by simp
    from untilBreak_length[OF pair this] skipHead_length[of b depth q] MapIndef
    show ?thesis by simp
  next
    case (MapDef n q)
    then have "forCount n
        (\<lambda>q. andThen (skip fuel q (depth + 1)) (\<lambda>q1. skip fuel q1 (depth + 1))) q
        = Some (Inr p)"
      using Suc.prems by simp
    from forCount_length[OF pair this] skipHead_length[of b depth q n] MapDef
    show ?thesis by simp
  qed
qed

lemma skip_total:
  "0 < fuel \<Longrightarrow> recursionLimit + 2 \<le> fuel + depth \<Longrightarrow> skip fuel b depth \<noteq> None"
proof (induction fuel arbitrary: b depth)
  case 0
  then show ?case by simp
next
  case (Suc fuel)
  have inner: "skip fuel q (depth + 1) \<noteq> None" if "depth \<le> recursionLimit" for q
    using that Suc.prems by (intro Suc.IH) simp_all
  have pair: "andThen (skip fuel q (depth + 1)) (\<lambda>q1. skip fuel q1 (depth + 1)) \<noteq> None"
    if "depth \<le> recursionLimit" for q
    using inner[OF that] by (auto simp: andThen_eq_None)
  have item_len: "\<And>q q'. skip fuel q (depth + 1) = Some (Inr q') \<Longrightarrow> length q' < length q"
    by (rule skip_length)
  have pair_len: "\<And>q q'. andThen (skip fuel q (depth + 1)) (\<lambda>q1. skip fuel q1 (depth + 1))
        = Some (Inr q') \<Longrightarrow> length q' < length q"
    by (auto simp: andThen_eq_Some_Inr dest!: skip_length)
  show ?case
  proof (cases "skipHead b depth")
    case (Done r)
    then show ?thesis by simp
  next
    case (Nested q)
    then show ?thesis using inner[of q] skipHead_depth[of b depth q] by simp
  next
    case (ArrayIndef q)
    then have d: "depth \<le> recursionLimit" using skipHead_depth[of b depth q] by simp
    show ?thesis using ArrayIndef
        untilBreak_total[of "\<lambda>q. skip fuel q (depth + 1)" q "length q + 1", OF inner[OF d] item_len]
      by simp
  next
    case (ArrayDef n q)
    then have d: "depth \<le> recursionLimit" using skipHead_depth[of b depth q n] by simp
    show ?thesis using ArrayDef
        forCount_total[of "\<lambda>q. skip fuel q (depth + 1)" n q, OF inner[OF d]]
      by simp
  next
    case (MapIndef q)
    then have d: "depth \<le> recursionLimit" using skipHead_depth[of b depth q] by simp
    show ?thesis using MapIndef
        untilBreak_total[of "\<lambda>q. andThen (skip fuel q (depth + 1)) (\<lambda>q1. skip fuel q1 (depth + 1))"
            q "length q + 1", OF pair[OF d] pair_len]
      by simp
  next
    case (MapDef n q)
    then have d: "depth \<le> recursionLimit" using skipHead_depth[of b depth q n] by simp
    show ?thesis using MapDef
        forCount_total[of "\<lambda>q. andThen (skip fuel q (depth + 1)) (\<lambda>q1. skip fuel q1 (depth + 1))"
            n q, OF pair[OF d]]
      by simp
  qed
qed

lemma Skip_total: "Skip b \<noteq> None"
  unfolding Skip_def by (rule skip_total) simp_all

lemma Skip_length: "Skip b = Some (Inr p) \<Longrightarrow> length p < length b"
  unfolding Skip_def by (rule skip_length)


lemma unat_getAddInfo: "unat (getAddInfo x) = unat x mod 32"
  unfolding getAddInfo_def mask5
  by (simp add: take_bit_eq_mask[symmetric] unsigned_take_bit_eq take_bit_eq_mod unat_mod)

lemma unat_getMajorType: "unat (getMajorType x) = unat x div 32"
proof -
  have "unat x < 256" using unsigned_less[of x, where 'a=nat] by simp
  then have "unat x div 32 < 8" by simp
  then show ?thesis
    unfolding getMajorType_def mask3
    by (simp add: take_bit_eq_mask[symmetric] unsigned_take_bit_eq take_bit_eq_mod
        unsigned_drop_bit_eq drop_bit_eq_div unat_mod unat_div)
qed

lemma getMajorType_eq_iff: "getMajorType x = m \<longleftrightarrow> unat x div 32 = unat m"
  by (simp add: word_unat_eq_iff unat_getMajorType)

lemma getAddInfo_eq_iff: "getAddInfo x = a \<longleftrightarrow> unat x mod 32 = unat a"
  by (simp add: word_unat_eq_iff unat_getAddInfo)

subsection \<open>Evaluating the walkers on concrete input\<close>

lemma skip_numeral:
  "skip (numeral k) b depth =
     (case skipHead b depth of
        Done r \<Rightarrow> Some r
      | Nested p \<Rightarrow> skip (pred_numeral k) p (depth + 1)
      | ArrayIndef p \<Rightarrow> untilBreak (length p + 1) (\<lambda>q. skip (pred_numeral k) q (depth + 1)) p
      | ArrayDef sz p \<Rightarrow> forCount sz (\<lambda>q. skip (pred_numeral k) q (depth + 1)) p
      | MapIndef p \<Rightarrow>
          untilBreak (length p + 1)
            (\<lambda>q. andThen (skip (pred_numeral k) q (depth + 1))
                    (\<lambda>q1. skip (pred_numeral k) q1 (depth + 1))) p
      | MapDef sz p \<Rightarrow>
          forCount sz
            (\<lambda>q. andThen (skip (pred_numeral k) q (depth + 1))
                    (\<lambda>q1. skip (pred_numeral k) q1 (depth + 1))) p)"
  by (simp add: numeral_eq_Suc)

lemma validateWellFormed_numeral:
  "validateWellFormed v (numeral k) b depth =
     (case validateHead v b depth of
        Done r \<Rightarrow> Some r
      | Nested p \<Rightarrow> validateWellFormed v (pred_numeral k) p (depth + 1)
      | ArrayIndef p \<Rightarrow>
          untilBreak (length p + 1) (\<lambda>q. validateWellFormed v (pred_numeral k) q (depth + 1)) p
      | ArrayDef sz p \<Rightarrow>
          forCount sz (\<lambda>q. validateWellFormed v (pred_numeral k) q (depth + 1)) p
      | MapIndef p \<Rightarrow>
          untilBreak (length p + 1)
            (\<lambda>q. andThen (validateWellFormed v (pred_numeral k) q (depth + 1))
                    (\<lambda>q1. validateWellFormed v (pred_numeral k) q1 (depth + 1))) p
      | MapDef sz p \<Rightarrow>
          forCount sz
            (\<lambda>q. andThen (validateWellFormed v (pred_numeral k) q (depth + 1))
                    (\<lambda>q1. validateWellFormed v (pred_numeral k) q1 (depth + 1))) p)"
  by (simp add: numeral_eq_Suc)

lemma forCount_numeral:
  "forCount (numeral k) body p = andThen (body p) (forCount (pred_numeral k) body)"
  by (simp add: numeral_eq_Suc)

lemmas eval_walk =
  Skip_def ValidateWellFormedBytes_def recursionLimit_def skip_numeral
  validateWellFormed_numeral forCount_numeral skipHead_def validateHead_def
  walkInt_def skipString_def walkArray_def walkMap_def skipSimple_def
  validateBytes_def validateText_def validateSimple_def
  readUintCore_def getMajorType_def getAddInfo_def makeByte_def wire_consts Let_def


subsection \<open>\<open>validateWellFormed\<close> consumes input and returns\<close>

lemma validateBytesChunks_length:
  "validateBytesChunks p = Inr q \<Longrightarrow> length q < length p"
proof (induction p rule: validateBytesChunks.induct)
  case (1 p)
  show ?case
  proof (cases "length p < 1 \<or> p ! 0 = makeByte majorTypeSimple simpleBreak")
    case True
    then show ?thesis using "1.prems"
      by (subst (asm) validateBytesChunks.simps) (auto split: if_splits)
  next
    case False
    then obtain sz r where r: "readUintCore p majorTypeBytes = Inr (sz, r)"
        "\<not> length r < unat sz" "validateBytesChunks (drop (unat sz) r) = Inr q"
      using "1.prems"
      by (subst (asm) validateBytesChunks.simps) (auto split: sum.splits if_splits)
    from "1.IH"[OF _ _ r(1) refl r(2) r(3)] False readUintCore_length[OF r(1)]
    show ?thesis by simp
  qed
qed

lemma validateTextChunks_length:
  "validateTextChunks v p = Inr q \<Longrightarrow> length q < length p"
proof (induction v p rule: validateTextChunks.induct)
  case (1 v p)
  show ?case
  proof (cases "length p < 1 \<or> p ! 0 = makeByte majorTypeSimple simpleBreak")
    case True
    then show ?thesis using "1.prems"
      by (subst (asm) validateTextChunks.simps) (auto split: if_splits)
  next
    case False
    then obtain chunk r where r: "ReadStringZC p = Inr (chunk, r)" "\<not> \<not> v chunk"
        "validateTextChunks v r = Inr q"
      using "1.prems"
      by (subst (asm) validateTextChunks.simps) (auto split: sum.splits if_splits)
    from "1.IH"[OF _ _ r(1) refl r(2) r(3)] False ReadStringZC_length[OF r(1)]
    show ?thesis by simp
  qed
qed

lemma validateBytes_length:
  "validateBytes b add = Done (Inr p) \<Longrightarrow> length p < length b"
  by (auto simp: validateBytes_def split: sum.splits if_splits
      dest!: readUintCore_length validateBytesChunks_length)

lemma validateBytes_shape:
  "validateBytes b add \<noteq> Nested p"
  "validateBytes b add \<noteq> ArrayIndef p" "validateBytes b add \<noteq> ArrayDef n p"
  "validateBytes b add \<noteq> MapIndef p" "validateBytes b add \<noteq> MapDef n p"
  by (auto simp: validateBytes_def split: sum.splits if_splits)

lemma validateText_length:
  "validateText v b add = Done (Inr p) \<Longrightarrow> length p < length b"
  by (auto simp: validateText_def split: sum.splits if_splits
      dest!: ReadStringZC_length validateTextChunks_length)

lemma validateText_shape:
  "validateText v b add \<noteq> Nested p"
  "validateText v b add \<noteq> ArrayIndef p" "validateText v b add \<noteq> ArrayDef n p"
  "validateText v b add \<noteq> MapIndef p" "validateText v b add \<noteq> MapDef n p"
  by (auto simp: validateText_def split: sum.splits if_splits)

lemma validateSimple_length:
  "b \<noteq> [] \<Longrightarrow> validateSimple b add = Done (Inr p) \<Longrightarrow> length p < length b"
  by (auto simp: validateSimple_def split: if_splits)

lemma validateSimple_shape:
  "validateSimple b add \<noteq> Nested p"
  "validateSimple b add \<noteq> ArrayIndef p" "validateSimple b add \<noteq> ArrayDef n p"
  "validateSimple b add \<noteq> MapIndef p" "validateSimple b add \<noteq> MapDef n p"
  by (auto simp: validateSimple_def split: if_splits)

lemmas validate_shapes =
  walkInt_shape validateBytes_shape validateText_shape walkArray_shape walkMap_shape
  validateSimple_shape

lemma validateHead_length:
  assumes "validateHead v b depth = Done (Inr p) \<or> validateHead v b depth = Nested p
     \<or> validateHead v b depth = ArrayIndef p \<or> validateHead v b depth = ArrayDef n p
     \<or> validateHead v b depth = MapIndef p \<or> validateHead v b depth = MapDef n p"
  shows "length p < length b"
  using assms walkInt_length[of b "getMajorType (b ! 0)" p]
    validateBytes_length[of b "getAddInfo (b ! 0)" p]
    validateText_length[of v b "getAddInfo (b ! 0)" p]
    walkArray_length[of b "getAddInfo (b ! 0)" p n]
    walkMap_length[of b "getAddInfo (b ! 0)" p n]
    validateSimple_length[of b "getAddInfo (b ! 0)" p]
  unfolding validateHead_def Let_def
  by (simp add: validate_shapes split: if_splits)

lemma validateHead_depth:
  assumes "validateHead v b depth = Nested p
     \<or> validateHead v b depth = ArrayIndef p \<or> validateHead v b depth = ArrayDef n p
     \<or> validateHead v b depth = MapIndef p \<or> validateHead v b depth = MapDef n p"
  shows "depth \<le> recursionLimit"
  using assms unfolding validateHead_def by (auto split: if_splits)

lemma validateWellFormed_length:
  "validateWellFormed v fuel b depth = Some (Inr p) \<Longrightarrow> length p < length b"
proof (induction fuel arbitrary: b depth p)
  case 0
  then show ?case by simp
next
  case (Suc fuel)
  have item: "\<And>q q'. validateWellFormed v fuel q (depth + 1) = Some (Inr q')
      \<Longrightarrow> length q' \<le> length q"
    using Suc.IH by (simp add: less_imp_le)
  have pair: "\<And>q q'. andThen (validateWellFormed v fuel q (depth + 1))
        (\<lambda>q1. validateWellFormed v fuel q1 (depth + 1)) = Some (Inr q')
      \<Longrightarrow> length q' \<le> length q"
  proof -
    fix q q'
    assume "andThen (validateWellFormed v fuel q (depth + 1))
        (\<lambda>q1. validateWellFormed v fuel q1 (depth + 1)) = Some (Inr q')"
    then obtain q1 where "validateWellFormed v fuel q (depth + 1) = Some (Inr q1)"
        "validateWellFormed v fuel q1 (depth + 1) = Some (Inr q')"
      by (auto simp: andThen_eq_Some_Inr)
    then show "length q' \<le> length q"
      using Suc.IH[of q "depth + 1" q1] Suc.IH[of q1 "depth + 1" q'] by simp
  qed
  show ?case
  proof (cases "validateHead v b depth")
    case (Done r)
    then show ?thesis using Suc.prems validateHead_length[of v b depth p] by simp
  next
    case (Nested q)
    then show ?thesis
      using Suc.prems Suc.IH[of q "depth + 1" p] validateHead_length[of v b depth q] by simp
  next
    case (ArrayIndef q)
    then have "untilBreak (length q + 1) (\<lambda>q. validateWellFormed v fuel q (depth + 1)) q
        = Some (Inr p)"
      using Suc.prems by simp
    from untilBreak_length[OF item this] validateHead_length[of v b depth q] ArrayIndef
    show ?thesis by simp
  next
    case (ArrayDef n q)
    then have "forCount n (\<lambda>q. validateWellFormed v fuel q (depth + 1)) q = Some (Inr p)"
      using Suc.prems by simp
    from forCount_length[OF item this] validateHead_length[of v b depth q n] ArrayDef
    show ?thesis by simp
  next
    case (MapIndef q)
    then have "untilBreak (length q + 1)
        (\<lambda>q. andThen (validateWellFormed v fuel q (depth + 1))
                (\<lambda>q1. validateWellFormed v fuel q1 (depth + 1))) q = Some (Inr p)"
      using Suc.prems by simp
    from untilBreak_length[OF pair this] validateHead_length[of v b depth q] MapIndef
    show ?thesis by simp
  next
    case (MapDef n q)
    then have "forCount n
        (\<lambda>q. andThen (validateWellFormed v fuel q (depth + 1))
                (\<lambda>q1. validateWellFormed v fuel q1 (depth + 1))) q = Some (Inr p)"
      using Suc.prems by simp
    from forCount_length[OF pair this] validateHead_length[of v b depth q n] MapDef
    show ?thesis by simp
  qed
qed

lemma validateWellFormed_total:
  "0 < fuel \<Longrightarrow> recursionLimit + 2 \<le> fuel + depth
     \<Longrightarrow> validateWellFormed v fuel b depth \<noteq> None"
proof (induction fuel arbitrary: b depth)
  case 0
  then show ?case by simp
next
  case (Suc fuel)
  have inner: "validateWellFormed v fuel q (depth + 1) \<noteq> None"
    if "depth \<le> recursionLimit" for q
    using that Suc.prems by (intro Suc.IH) simp_all
  have pair: "andThen (validateWellFormed v fuel q (depth + 1))
      (\<lambda>q1. validateWellFormed v fuel q1 (depth + 1)) \<noteq> None"
    if "depth \<le> recursionLimit" for q
    using inner[OF that] by (auto simp: andThen_eq_None)
  have item_len: "\<And>q q'. validateWellFormed v fuel q (depth + 1) = Some (Inr q')
      \<Longrightarrow> length q' < length q"
    by (rule validateWellFormed_length)
  have pair_len: "\<And>q q'. andThen (validateWellFormed v fuel q (depth + 1))
        (\<lambda>q1. validateWellFormed v fuel q1 (depth + 1)) = Some (Inr q')
      \<Longrightarrow> length q' < length q"
    by (auto simp: andThen_eq_Some_Inr dest!: validateWellFormed_length)
  show ?case
  proof (cases "validateHead v b depth")
    case (Done r)
    then show ?thesis by simp
  next
    case (Nested q)
    then show ?thesis using inner[of q] validateHead_depth[of v b depth q] by simp
  next
    case (ArrayIndef q)
    then have d: "depth \<le> recursionLimit" using validateHead_depth[of v b depth q] by simp
    show ?thesis using ArrayIndef
        untilBreak_total[of "\<lambda>q. validateWellFormed v fuel q (depth + 1)" q "length q + 1",
          OF inner[OF d] item_len]
      by simp
  next
    case (ArrayDef n q)
    then have d: "depth \<le> recursionLimit" using validateHead_depth[of v b depth q n] by simp
    show ?thesis using ArrayDef
        forCount_total[of "\<lambda>q. validateWellFormed v fuel q (depth + 1)" n q, OF inner[OF d]]
      by simp
  next
    case (MapIndef q)
    then have d: "depth \<le> recursionLimit" using validateHead_depth[of v b depth q] by simp
    show ?thesis using MapIndef
        untilBreak_total[of "\<lambda>q. andThen (validateWellFormed v fuel q (depth + 1))
              (\<lambda>q1. validateWellFormed v fuel q1 (depth + 1))"
            q "length q + 1", OF pair[OF d] pair_len]
      by simp
  next
    case (MapDef n q)
    then have d: "depth \<le> recursionLimit" using validateHead_depth[of v b depth q n] by simp
    show ?thesis using MapDef
        forCount_total[of "\<lambda>q. andThen (validateWellFormed v fuel q (depth + 1))
              (\<lambda>q1. validateWellFormed v fuel q1 (depth + 1))" n q, OF pair[OF d]]
      by simp
  qed
qed

lemma ValidateWellFormedBytes_total: "ValidateWellFormedBytes v b \<noteq> None"
  unfolding ValidateWellFormedBytes_def by (rule validateWellFormed_total) simp_all
subsection \<open>The no-duplicate map reader\<close>

lemma noDupDef_numeral:
  "noDupDef (numeral k) seen p =
     andThen (noDupEntry seen p) (\<lambda>(seen', p'). noDupDef (pred_numeral k) seen' p')"
  by (simp add: numeral_eq_Suc)

lemma Skip_examples:
  "Skip [0x61, 0x61, 0x01, 0x61, 0x61, 0x02] = Some (Inr [0x01, 0x61, 0x61, 0x02])"
  "Skip [0x01, 0x61, 0x61, 0x02] = Some (Inr [0x61, 0x61, 0x02])"
  "Skip [0x61, 0x61, 0x02] = Some (Inr [0x02])"
  "Skip [0x01, 0xf8, 0x20] = Some (Inr [0xf8, 0x20])"
  "Skip [0xf8, 0x20] = Some (Inl ErrUnsupportedType)"
  "Skip [0x01, 0xf8, 0x20, 0xff] = Some (Inr [0xf8, 0x20, 0xff])"
  "Skip [0xf8, 0x20, 0xff] = Some (Inl ErrUnsupportedType)"
  by (simp_all add: eval_walk)

lemma ReadMapNoDupBytes_duplicate_example:
  "ReadMapNoDupBytes [0xa2, 0x61, 0x61, 0x01, 0x61, 0x61, 0x02] = Some (Inl ErrDuplicateMapKey)"
  by (simp add: ReadMapNoDupBytes_def ReadMapHeaderBytes_def getMajorType_def getAddInfo_def
      wire_consts noDupDef_numeral noDupEntry_def Skip_examples Let_def)

lemma ReadMapNoDupBytes_simple_value_definite:
  "ReadMapNoDupBytes [0xa1, 0x01, 0xf8, 0x20] = Some (Inl ErrUnsupportedType)"
  by (simp add: ReadMapNoDupBytes_def ReadMapHeaderBytes_def getMajorType_def getAddInfo_def
      wire_consts noDupEntry_def Skip_examples Let_def)

lemma ReadMapNoDupBytes_simple_value_indefinite:
  "ReadMapNoDupBytes [0xbf, 0x01, 0xf8, 0x20, 0xff] = Some (Inl ErrUnsupportedType)"
  by (simp add: ReadMapNoDupBytes_def getMajorType_def getAddInfo_def
      wire_consts makeByte_def noDupEntry_def Skip_examples Let_def)

lemma ValidateWellFormedBytes_simple_value_maps:
  "ValidateWellFormedBytes isUTF8Valid [0xa1, 0x01, 0xf8, 0x20] = Some (Inr [])"
  "ValidateWellFormedBytes isUTF8Valid [0xbf, 0x01, 0xf8, 0x20, 0xff] = Some (Inr [])"
  by (simp_all add: eval_walk)

text \<open>
  Claim C6 says that \<open>ReadMapNoDupBytes\<close> returns the duplicate-map-key error exactly
  when two entries have the same raw key bytes and the remainder after the map otherwise.
  On \<open>a2 6161 01 6161 02\<close> it returns the duplicate-map-key error, as the claim says.  The
  maps \<open>a1 01 f8 20\<close> and \<open>bf 01 f8 20 ff\<close> (\<open>{1: simple(32)}\<close> in the definite and the
  indefinite form) are well-formed, as \<open>ValidateWellFormedBytes\<close> confirms, and have one
  entry, hence no duplicate; \<open>ReadMapNoDupBytes\<close> returns neither the duplicate-map-key
  error nor the remainder but \<open>ErrUnsupportedType\<close>, because it delimits keys and values
  with \<open>Skip\<close>, which has no case for the two-byte simple value.
\<close>

theorem ReadMapNoDupBytes_refuses_wellformed_map:
  "ReadMapNoDupBytes [0xa2, 0x61, 0x61, 0x01, 0x61, 0x61, 0x02] = Some (Inl ErrDuplicateMapKey)
   \<and> ValidateWellFormedBytes isUTF8Valid [0xa1, 0x01, 0xf8, 0x20] = Some (Inr [])
   \<and> ReadMapNoDupBytes [0xa1, 0x01, 0xf8, 0x20] = Some (Inl ErrUnsupportedType)
   \<and> ValidateWellFormedBytes isUTF8Valid [0xbf, 0x01, 0xf8, 0x20, 0xff] = Some (Inr [])
   \<and> ReadMapNoDupBytes [0xbf, 0x01, 0xf8, 0x20, 0xff] = Some (Inl ErrUnsupportedType)"
  using ReadMapNoDupBytes_duplicate_example ReadMapNoDupBytes_simple_value_definite
    ReadMapNoDupBytes_simple_value_indefinite
    ValidateWellFormedBytes_simple_value_maps[of isUTF8Valid]
  by simp
section \<open>Well-formedness and skipping\<close>

text \<open>
  Claim C3 says that every input \<open>ValidateWellFormedBytes\<close> accepts is skipped by
  \<open>Skip\<close>.  The two-byte simple value \<open>f8 20\<close> (\<open>simple(32)\<close>) is accepted by
  \<open>validateWellFormed\<close>, whose \<open>switch\<close> has a case for additional information 24
  under major type 7, and refused by \<open>skip\<close>, whose \<open>switch\<close> has none.
\<close>

theorem validate_accepts_skip_rejects_simple_pair:
  "ValidateWellFormedBytes isUTF8Valid [0xf8, 0x20] = Some (Inr [])
   \<and> Skip [0xf8, 0x20] = Some (Inl ErrUnsupportedType)"
  by (simp add: eval_walk)


end
